theory Spec2Isabelle
  imports Main "HOL-Library.Word"
begin

section \<open>The image-collection form of \<^verbatim>\<open>src/App.tsx\<close>\<close>

text \<open>
  The component \<^verbatim>\<open>App\<close> keeps six state variables (\<^verbatim>\<open>useState\<close>) and changes
  them only in its event handlers. Each handler is embedded as a function from the
  state before the event to the state after it; a handler that issues a network request
  returns the request beside the new state. The browser is present as far as the
  handlers use it: the store of object URLs (\<^verbatim>\<open>URL.createObjectURL\<close>) and the
  requests that have been posted and not yet answered.
\<close>

subsection \<open>Strings and numbers of the host language\<close>

text \<open>
  A string of the program is a sequence of UTF-16 code units. The literals of the program
  (messages, field names, the endpoint) are ASCII and are kept as \<^typ>\<open>string\<close>;
  \<open>utf16\<close> reads such a literal as a program string.
\<close>

type_synonym js_string = "16 word list"

definition utf16 :: "string \<Rightarrow> js_string" where
  "utf16 s = map of_char s"

text \<open>
  \<^verbatim>\<open>String.prototype.trim\<close> removes the code units of the productions WhiteSpace and
  LineTerminator from both ends: TAB, LF, VT, FF, CR, SP, NBSP, U+1680, U+2000 to U+200A,
  U+2028, U+2029, U+202F, U+205F, U+3000 and U+FEFF.
\<close>

definition isWhiteSpace :: "16 word \<Rightarrow> bool" where
  "isWhiteSpace c \<longleftrightarrow>
     c \<in> set [0x9, 0xA, 0xB, 0xC, 0xD, 0x20, 0xA0, 0x1680, 0x2028, 0x2029, 0x202F, 0x205F,
              0x3000, 0xFEFF]
     \<or> (0x2000 \<le> c \<and> c \<le> 0x200A)"

definition trim :: "js_string \<Rightarrow> js_string" where
  "trim s = rev (dropWhile isWhiteSpace (rev (dropWhile isWhiteSpace s)))"

text \<open>
  \<^verbatim>\<open>numImages\<close> is a number of the host, a double. It starts as 10 and is afterwards
  whatever \<^verbatim>\<open>parseInt\<close> made of the text of the number input: NaN when the text has
  no leading digits, otherwise the double nearest to the integer written there.

  A double holds every integer of magnitude up to \<open>2\<^sup>5\<^sup>3 - 1\<close> exactly, and
  \<^verbatim>\<open>Number.prototype.toString\<close> prints such a number as the decimal numeral of that
  integer, with a leading minus sign when it is negative. These are the values
  \<open>IntVal\<close>; the type \<open>safe_integer\<close> holds no other integer. Beyond this range a
  double stands for a rounded integer or for an infinity, and the host prints rounded
  digits, exponent form from \<open>10\<^sup>2\<^sup>1\<close> on, or \<^verbatim>\<open>"Infinity"\<close>. The program does one
  thing with such a number, printing it, and the printing determines the number; so a
  number beyond the range is the value \<open>Beyond\<close> of the string the host prints for it.
  The model does not compute that string: any string may stand there.
\<close>

typedef safe_integer = "{n :: int. \<bar>n\<bar> \<le> 2 ^ 53 - 1}"
  morphisms intOf safeInteger
  by (rule exI [of _ 0]) simp

datatype js_number = IntVal safe_integer | NaN | Beyond js_string

definition digitChar :: "nat \<Rightarrow> char" where
  "digitChar d = ''0123456789'' ! (d mod 10)"

fun decimal :: "nat \<Rightarrow> string" where
  "decimal n = (if n < 10 then [digitChar n] else decimal (n div 10) @ [digitChar (n mod 10)])"

declare decimal.simps [simp del]

definition showInt :: "int \<Rightarrow> string" where
  "showInt n = (if n < 0 then CHR ''-'' # decimal (nat (- n)) else decimal (nat n))"

fun toString :: "js_number \<Rightarrow> js_string" where
  "toString NaN = utf16 ''NaN''"
| "toString (IntVal k) = utf16 (showInt (intOf k))"
| "toString (Beyond printed) = printed"

text \<open>Reading a decimal numeral back; used to state what \<open>showInt\<close> produces.\<close>

definition digitValue :: "char \<Rightarrow> nat" where
  "digitValue c = of_char c - 48"

definition decimalValue :: "string \<Rightarrow> nat" where
  "decimalValue s = foldl (\<lambda>a c. 10 * a + digitValue c) 0 s"

definition readInt :: "string \<Rightarrow> int" where
  "readInt s =
     (case s of
        [] \<Rightarrow> 0
      | c # cs \<Rightarrow> if c = CHR ''-'' then - int (decimalValue cs) else int (decimalValue s))"

subsection \<open>The state of the component\<close>

text \<open>
  \<^verbatim>\<open>Array<{file: File, className: string}>\<close>: the type \<open>'f\<close> stands for the host's
  \<^verbatim>\<open>File\<close> objects. \<^verbatim>\<open>downloadUrl\<close> holds the string \<^verbatim>\<open>URL.createObjectURL\<close>
  returned; an object URL is modelled by the position of its entry in the browser's store.
  The field \<^verbatim>\<open>file\<close> is written \<open>file'\<close>.
\<close>

record 'f entry =
  file' :: 'f
  className :: js_string

record 'f app_state =
  files :: "'f entry list"
  numImages :: js_number
  isLoading :: bool
  error :: "string option"
  downloadUrl :: "nat option"
  activeDragIndex :: "int option"

definition init_state :: "'f app_state" where
  "init_state = \<lparr>files = [], numImages = IntVal (safeInteger 10), isLoading = False, error = None,
                  downloadUrl = None, activeDragIndex = None\<rparr>"

subsection \<open>Editing the collection\<close>

text \<open>
  \<^verbatim>\<open>onDrop: acceptedFiles => { const newFiles = acceptedFiles.map(file => ({file, className: ''}));
  setFiles(prev => [...prev, ...newFiles]); setError(null); setDownloadUrl(null); }\<close>
\<close>

definition onDrop :: "'f list \<Rightarrow> 'f app_state \<Rightarrow> 'f app_state" where
  "onDrop acceptedFiles s =
     (let newFiles = map (\<lambda>f. \<lparr>file' = f, className = []\<rparr>) acceptedFiles
      in s\<lparr>files := files s @ newFiles, error := None, downloadUrl := None\<rparr>)"

text \<open>
  \<^verbatim>\<open>setFiles(prev => prev.map((item, i) => i === index ? {...item, className: value} : item))\<close>.
  The callback sees every position \<open>i\<close> of the array; \<open>index\<close> is any integer.
\<close>

definition handleClassNameChange :: "int \<Rightarrow> js_string \<Rightarrow> 'f app_state \<Rightarrow> 'f app_state" where
  "handleClassNameChange index v s =
     s\<lparr>files := map (\<lambda>(i, item). if int i = index then item\<lparr>className := v\<rparr> else item)
                      (enumerate 0 (files s))\<rparr>"

text \<open>\<^verbatim>\<open>setFiles(prev => prev.filter((_, i) => i !== index))\<close>\<close>

definition removeFile :: "int \<Rightarrow> 'f app_state \<Rightarrow> 'f app_state" where
  "removeFile index s =
     s\<lparr>files := map snd (filter (\<lambda>(i, _). int i \<noteq> index) (enumerate 0 (files s)))\<rparr>"

subsection \<open>Reordering by drag and drop\<close>

text \<open>
  \<^verbatim>\<open>handleDragStart\<close> writes the index into the gesture's \<^verbatim>\<open>dataTransfer\<close> and into
  \<^verbatim>\<open>activeDragIndex\<close>; \<^verbatim>\<open>handleDragOver\<close> only calls \<^verbatim>\<open>preventDefault\<close>.
\<close>

definition handleDragStart :: "int \<Rightarrow> 'f app_state \<Rightarrow> 'f app_state" where
  "handleDragStart index s = s\<lparr>activeDragIndex := Some index\<rparr>"

definition handleDragOver :: "int \<Rightarrow> 'f app_state \<Rightarrow> 'f app_state" where
  "handleDragOver index s = s"

text \<open>
  \<^verbatim>\<open>Array.prototype.splice(start, ...)\<close> clamps its start: a negative start counts from
  the end and stops at 0, a start beyond the end is the length.
\<close>

definition actualStart :: "int \<Rightarrow> nat \<Rightarrow> nat" where
  "actualStart start len =
     (if start < 0 then nat (max (int len + start) 0) else min (nat start) len)"

text \<open>
  The updater of \<^verbatim>\<open>handleDrop\<close>:
  \<^verbatim>\<open>const newFiles = [...prev]; const [removed] = newFiles.splice(sourceIndex, 1);
  newFiles.splice(targetIndex, 0, removed); return newFiles;\<close>
  When the first splice starts at the end of the array it removes nothing, \<^verbatim>\<open>removed\<close>
  is \<^verbatim>\<open>undefined\<close>, and the second splice stores \<^verbatim>\<open>undefined\<close> in the array; the
  next render reads \<^verbatim>\<open>item.file\<close> of it and throws. That outcome is the error
  \<open>UndefinedEntry\<close>.
\<close>

datatype js_error = UndefinedEntry

definition moveEntry :: "int \<Rightarrow> int \<Rightarrow> 'a list \<Rightarrow> js_error + 'a list" where
  "moveEntry sourceIndex targetIndex prev =
     (let a = actualStart sourceIndex (length prev) in
      if a < length prev then
        (let removed = prev ! a;
             newFiles = take a prev @ drop (Suc a) prev;
             b = actualStart targetIndex (length newFiles)
         in Inr (take b newFiles @ removed # drop b newFiles))
      else Inl UndefinedEntry)"

text \<open>
  \<^verbatim>\<open>const sourceIndex = Number(e.dataTransfer.getData('index'));
  if (sourceIndex === targetIndex) return;
  setFiles(prev => ...); setActiveDragIndex(null);\<close>
  The handler is given the number it reads from the gesture.
\<close>

definition handleDrop :: "int \<Rightarrow> int \<Rightarrow> 'f app_state \<Rightarrow> js_error + 'f app_state" where
  "handleDrop sourceIndex targetIndex s =
     (if sourceIndex = targetIndex then Inr s
      else case moveEntry sourceIndex targetIndex (files s) of
             Inl e \<Rightarrow> Inl e
           | Inr newFiles \<Rightarrow> Inr (s\<lparr>files := newFiles, activeDragIndex := None\<rparr>))"

subsection \<open>Submitting\<close>

text \<open>
  A \<^verbatim>\<open>FormData\<close> is an ordered list of name and value pairs in which a name may
  repeat; \<^verbatim>\<open>append\<close> adds a pair at the end and \<^verbatim>\<open>getAll\<close> returns the values
  of one name in order. \<^verbatim>\<open>append\<close> takes its string value as a sequence of Unicode
  scalar values: a surrogate code unit that is not part of a pair (a high surrogate
  followed by a low one) is replaced by U+FFFD. A file is stored as it is. The names the
  program appends are ASCII literals. The model is of this list as it is handed to
  \<^verbatim>\<open>axios.post\<close>, not of its encoding on the wire.
\<close>

definition isHighSurrogate :: "16 word \<Rightarrow> bool" where
  "isHighSurrogate c \<longleftrightarrow> 0xD800 \<le> c \<and> c \<le> 0xDBFF"

definition isLowSurrogate :: "16 word \<Rightarrow> bool" where
  "isLowSurrogate c \<longleftrightarrow> 0xDC00 \<le> c \<and> c \<le> 0xDFFF"

fun toUSVString :: "js_string \<Rightarrow> js_string" where
  "toUSVString [] = []"
| "toUSVString [c] = (if isHighSurrogate c \<or> isLowSurrogate c then [0xFFFD] else [c])"
| "toUSVString (c # d # cs) =
     (if isHighSurrogate c then
        (if isLowSurrogate d then c # d # toUSVString cs else 0xFFFD # toUSVString (d # cs))
      else if isLowSurrogate c then 0xFFFD # toUSVString (d # cs)
      else c # toUSVString (d # cs))"

datatype 'f form_value = FileValue 'f | StringValue js_string

type_synonym 'f form_data = "(string \<times> 'f form_value) list"

definition formData_append :: "'f form_data \<Rightarrow> string \<Rightarrow> 'f form_value \<Rightarrow> 'f form_data" where
  "formData_append fd name v =
     fd @ [(name, case v of
                    FileValue f \<Rightarrow> FileValue f
                  | StringValue str \<Rightarrow> StringValue (toUSVString str))]"

definition getAll :: "string \<Rightarrow> 'f form_data \<Rightarrow> 'f form_value list" where
  "getAll name fd = map snd (filter (\<lambda>(k, v). k = name) fd)"

record 'f request =
  url :: string
  body :: "'f form_data"

text \<open>
  \<^verbatim>\<open>files.forEach((item, _index) => { formData.append(`files`, item.file);
  formData.append(`class_names`, item.className); });
  formData.append('num_images', numImages.toString());\<close>
\<close>

definition buildFormData :: "'f entry list \<Rightarrow> js_number \<Rightarrow> 'f form_data" where
  "buildFormData fs n =
     (let formData =
            fold (\<lambda>item fd. formData_append
                               (formData_append fd ''files'' (FileValue (file' item)))
                               ''class_names'' (StringValue (className item)))
                 fs []
      in formData_append formData ''num_images'' (StringValue (toString n)))"

text \<open>
  \<^verbatim>\<open>handleSubmit\<close> up to its \<^verbatim>\<open>await\<close>: the two validation returns, then the three
  setters and the one \<^verbatim>\<open>axios.post\<close>. The result is the new state and the requests
  issued. The handler does not read \<^verbatim>\<open>isLoading\<close>.
\<close>

definition handleSubmit :: "'f app_state \<Rightarrow> 'f app_state \<times> 'f request list" where
  "handleSubmit s =
     (if length (files s) = 0 then
        (s\<lparr>error := Some ''Please select at least one image file''\<rparr>, [])
      else if list_ex (\<lambda>item. trim (className item) = []) (files s) then
        (s\<lparr>error := Some ''Please provide a class name for each image''\<rparr>, [])
      else
        (s\<lparr>isLoading := True, error := None, downloadUrl := None\<rparr>,
         [\<lparr>url = ''https://www.aiocr.go-ai.one/yolo-api/augment/'',
           body = buildFormData (files s) (numImages s)\<rparr>]))"

text \<open>
  The form's only submit button carries \<^verbatim>\<open>disabled={isLoading || files.length === 0}\<close>,
  and the form dispatches \<^verbatim>\<open>onSubmit={handleSubmit}\<close> through that button: while the
  button is disabled a submit gesture reaches no handler.
\<close>

definition submitForm :: "'f app_state \<Rightarrow> 'f app_state \<times> 'f request list" where
  "submitForm s =
     (if isLoading s \<or> length (files s) = 0 then (s, []) else handleSubmit s)"

subsection \<open>The browser around the component\<close>

text \<open>
  \<open>pending\<close> are the requests posted and not yet answered. \<open>objectUrls\<close> is the store
  behind \<^verbatim>\<open>URL.createObjectURL\<close> for the response blobs: the call adds an entry and
  returns its position. The source never calls \<^verbatim>\<open>URL.revokeObjectURL\<close>, so the model has
  no operation that takes an entry away: every entry of the store is a live handle.
\<close>

record ('f, 'b) config =
  app :: "'f app_state"
  pending :: "'f request list"
  objectUrls :: "'b list"

definition init_config :: "('f, 'b) config" where
  "init_config = \<lparr>app = init_state, pending = [], objectUrls = []\<rparr>"

definition createObjectURL :: "'b \<Rightarrow> 'b list \<Rightarrow> nat \<times> 'b list" where
  "createObjectURL blob store = (length store, store @ [blob])"

text \<open>
  The rest of \<^verbatim>\<open>handleSubmit\<close>, run when the request is answered. With a response:
  \<^verbatim>\<open>const url = window.URL.createObjectURL(new Blob([response.data])); setDownloadUrl(url);\<close>
  With a failure: \<^verbatim>\<open>setError('Error processing images. Please try again.')\<close>.
  In both cases \<^verbatim>\<open>finally { setIsLoading(false); }\<close>.
\<close>

definition settle :: "'b option \<Rightarrow> ('f, 'b) config \<Rightarrow> ('f, 'b) config" where
  "settle response c =
     (case response of
        Some blob \<Rightarrow>
          (case createObjectURL blob (objectUrls c) of
             (u, store) \<Rightarrow>
               c\<lparr>app := (app c)\<lparr>downloadUrl := Some u, isLoading := False\<rparr>,
                 objectUrls := store\<rparr>)
      | None \<Rightarrow>
          c\<lparr>app := (app c)\<lparr>error := Some ''Error processing images. Please try again.'',
                             isLoading := False\<rparr>\<rparr>)"

text \<open>
  The events of a session. Every handler may be called with every argument, which is
  more than the rendered controls allow (they pass the indices of rendered items, and the
  text inputs are disabled while loading); a submit gesture goes through the button; an
  answer needs a pending request and settles the oldest one. An event has no successor
  when it is an answer without a request, or a drop that leaves \<^verbatim>\<open>undefined\<close> in the
  array.
\<close>

datatype ('f, 'b) event =
    DropFiles "'f list"
  | ClassNameChange int js_string
  | RemoveFile int
  | DragStart int
  | DragOver int
  | DropOn int int
  | SetNumImages js_number
  | Submit
  | Response "'b option"

fun step :: "('f, 'b) event \<Rightarrow> ('f, 'b) config \<Rightarrow> ('f, 'b) config option" where
  "step (DropFiles fs) c = Some (c\<lparr>app := onDrop fs (app c)\<rparr>)"
| "step (ClassNameChange i v) c = Some (c\<lparr>app := handleClassNameChange i v (app c)\<rparr>)"
| "step (RemoveFile i) c = Some (c\<lparr>app := removeFile i (app c)\<rparr>)"
| "step (DragStart i) c = Some (c\<lparr>app := handleDragStart i (app c)\<rparr>)"
| "step (DragOver i) c = Some (c\<lparr>app := handleDragOver i (app c)\<rparr>)"
| "step (DropOn src tgt) c =
     (case handleDrop src tgt (app c) of
        Inl e \<Rightarrow> None
      | Inr s \<Rightarrow> Some (c\<lparr>app := s\<rparr>))"
| "step (SetNumImages n) c = Some (c\<lparr>app := (app c)\<lparr>numImages := n\<rparr>\<rparr>)"
| "step Submit c =
     (case submitForm (app c) of
        (s, reqs) \<Rightarrow> Some (c\<lparr>app := s, pending := pending c @ reqs\<rparr>))"
| "step (Response r) c =
     (case pending c of
        [] \<Rightarrow> None
      | req # rest \<Rightarrow> Some (settle r (c\<lparr>pending := rest\<rparr>)))"

fun run :: "('f, 'b) event list \<Rightarrow> ('f, 'b) config \<Rightarrow> ('f, 'b) config option" where
  "run [] c = Some c"
| "run (ev # evs) c = (case step ev c of None \<Rightarrow> None | Some c' \<Rightarrow> run evs c')"

inductive reachable :: "('f, 'b) config \<Rightarrow> bool" where
  reachable_init: "reachable init_config"
| reachable_step: "reachable c \<Longrightarrow> step ev c = Some c' \<Longrightarrow> reachable c'"

text \<open>An answer that carries a response creates one object URL.\<close>

fun isSuccess :: "('f, 'b) event \<Rightarrow> bool" where
  "isSuccess (Response (Some blob)) = True"
| "isSuccess _ = False"

text \<open>
  What holds of the request state in every reachable configuration: \<^verbatim>\<open>isLoading\<close> is
  true exactly while a request is pending, at most one is pending, neither an error nor
  a download URL is present while loading, an error beside a download URL is the
  class-name message, and the download URL is the newest entry of the store.
\<close>

definition session_inv :: "('f, 'b) config \<Rightarrow> bool" where
  "session_inv c \<longleftrightarrow>
     (isLoading (app c) \<longleftrightarrow> pending c \<noteq> [])
     \<and> length (pending c) \<le> 1
     \<and> (isLoading (app c) \<longrightarrow> error (app c) = None \<and> downloadUrl (app c) = None)
     \<and> (error (app c) \<noteq> None \<and> downloadUrl (app c) \<noteq> None \<longrightarrow>
          error (app c) = Some ''Please provide a class name for each image'')
     \<and> (\<forall>u. downloadUrl (app c) = Some u \<longrightarrow> Suc u = length (objectUrls c))"

subsection \<open>The collection operations as the specification words them\<close>

text \<open>
  The specification gives \<open>remove\<close> and \<open>setClassName\<close> an error result: they fail
  with \<open>IndexOutOfRange\<close> when the index is not in \<open>[0, length)\<close>. These two
  definitions follow the specification's words, not the source; they are what
  \<open>removeFile\<close> and \<open>handleClassNameChange\<close> are compared with.
\<close>

datatype collection_error = IndexOutOfRange

definition remove_spec :: "int \<Rightarrow> 'a list \<Rightarrow> collection_error + 'a list" where
  "remove_spec index xs =
     (if 0 \<le> index \<and> index < int (length xs)
      then Inr (take (nat index) xs @ drop (Suc (nat index)) xs)
      else Inl IndexOutOfRange)"

definition setClassName_spec ::
  "int \<Rightarrow> js_string \<Rightarrow> 'f entry list \<Rightarrow> collection_error + 'f entry list" where
  "setClassName_spec index v xs =
     (if 0 \<le> index \<and> index < int (length xs)
      then Inr (xs[nat index := (xs ! nat index)\<lparr>className := v\<rparr>])
      else Inl IndexOutOfRange)"

subsection \<open>Sample data\<close>

text \<open>
  Concrete entries and states on which the theorems below are run: a file is
  represented by its name, a response blob by a string.
\<close>

definition entryOf :: "string \<Rightarrow> string \<Rightarrow> string entry" where
  "entryOf name label = \<lparr>file' = name, className = utf16 label\<rparr>"

definition sample_state :: "string entry list \<Rightarrow> string app_state" where
  "sample_state fs = \<lparr>files = fs, numImages = IntVal (safeInteger 5), isLoading = False, error = None,
                          downloadUrl = None, activeDragIndex = None\<rparr>"

text \<open>
  Three sessions. In the first a file is dropped, labelled and submitted; the request is
  pending. In the second the request is answered, the label is then replaced by a single
  space and the form is submitted again. In the third the request is answered and the
  form is submitted and answered a second time.
\<close>

definition submitted_session :: "(string, string) event list" where
  "submitted_session = [DropFiles [''cat.jpg''], ClassNameChange 0 (utf16 ''cat''), Submit]"

definition in_flight_config :: "(string, string) config" where
  "in_flight_config =
     \<lparr>app = \<lparr>files = [entryOf ''cat.jpg'' ''cat''], numImages = IntVal (safeInteger 10), isLoading = True,
             error = None, downloadUrl = None, activeDragIndex = None\<rparr>,
      pending = [\<lparr>url = ''https://www.aiocr.go-ai.one/yolo-api/augment/'',
                  body = buildFormData [entryOf ''cat.jpg'' ''cat''] (IntVal (safeInteger 10))\<rparr>],
      objectUrls = []\<rparr>"

definition relabelled_session :: "(string, string) event list" where
  "relabelled_session =
     submitted_session @ [Response (Some ''zip''), ClassNameChange 0 (utf16 '' ''), Submit]"

definition relabelled_config :: "(string, string) config" where
  "relabelled_config =
     \<lparr>app = \<lparr>files = [entryOf ''cat.jpg'' '' ''], numImages = IntVal (safeInteger 10), isLoading = False,
             error = Some ''Please provide a class name for each image'',
             downloadUrl = Some 0, activeDragIndex = None\<rparr>,
      pending = [],
      objectUrls = [''zip'']\<rparr>"

definition resubmitted_session :: "(string, string) event list" where
  "resubmitted_session =
     submitted_session @ [Response (Some ''zip 1''), Submit, Response (Some ''zip 2'')]"

definition resubmitted_config :: "(string, string) config" where
  "resubmitted_config =
     \<lparr>app = \<lparr>files = [entryOf ''cat.jpg'' ''cat''], numImages = IntVal (safeInteger 10), isLoading = False,
             error = None, downloadUrl = Some 1, activeDragIndex = None\<rparr>,
      pending = [],
      objectUrls = [''zip 1'', ''zip 2'']\<rparr>"

section \<open>Properties\<close>

subsection \<open>Facts about lists, numerals and the form data\<close>

lemma filter_enumerate_nat:
  "map snd (filter (\<lambda>(i, _). i \<noteq> k) (enumerate n xs))
     = (if n \<le> k \<and> k < n + length xs
        then take (k - n) xs @ drop (Suc (k - n)) xs else xs)"
proof (induction xs arbitrary: n)
  case Nil
  then show ?case by simp
next
  case (Cons x xs)
  consider "k < n" | "k = n" | "n < k" by linarith
  then show ?case
  proof cases
    case 1
    then show ?thesis using Cons.IH [of "Suc n"] by simp
  next
    case 2
    then show ?thesis using Cons.IH [of "Suc n"] by simp
  next
    case 3
    then have "k - n = Suc (k - Suc n)" by simp
    with 3 show ?thesis using Cons.IH [of "Suc n"] by simp
  qed
qed

lemma map_enumerate_nat:
  "map (\<lambda>(i, item). if i = k then f item else item) (enumerate n xs)
     = (if n \<le> k \<and> k < n + length xs
        then xs[k - n := f (xs ! (k - n))] else xs)"
proof (induction xs arbitrary: n)
  case Nil
  then show ?case by simp
next
  case (Cons x xs)
  consider "k < n" | "k = n" | "n < k" by linarith
  then show ?case
  proof cases
    case 1
    then show ?thesis using Cons.IH [of "Suc n"] by simp
  next
    case 2
    then show ?thesis using Cons.IH [of "Suc n"] by simp
  next
    case 3
    then have "k - n = Suc (k - Suc n)" by simp
    with 3 show ?thesis using Cons.IH [of "Suc n"] by simp
  qed
qed

lemma filter_enumerate_int:
  "map snd (filter (\<lambda>(i, _). int i \<noteq> index) (enumerate 0 xs))
     = (if 0 \<le> index \<and> index < int (length xs)
        then take (nat index) xs @ drop (Suc (nat index)) xs else xs)"
proof (cases "0 \<le> index")
  case True
  then have "(\<lambda>(i::nat, _::'a). int i \<noteq> index) = (\<lambda>(i, _). i \<noteq> nat index)"
    by (auto simp: fun_eq_iff)
  then show ?thesis using True filter_enumerate_nat [of "nat index" 0 xs]
    by (simp add: nat_less_iff)
next
  case False
  then have "(\<lambda>(i::nat, _::'a). int i \<noteq> index) = (\<lambda>_. True)"
    by (auto simp: fun_eq_iff)
  then show ?thesis using False by simp
qed

lemma map_enumerate_int:
  "map (\<lambda>(i, item). if int i = index then f item else item) (enumerate 0 xs)
     = (if 0 \<le> index \<and> index < int (length xs)
        then xs[nat index := f (xs ! nat index)] else xs)"
proof (cases "0 \<le> index")
  case True
  then have "(\<lambda>(i::nat, item::'a). if int i = index then f item else item)
               = (\<lambda>(i, item). if i = nat index then f item else item)"
    by (auto simp: fun_eq_iff)
  then show ?thesis using True map_enumerate_nat [of "nat index" f 0 xs]
    by (simp add: nat_less_iff)
next
  case False
  then have "(\<lambda>(i::nat, item::'a). if int i = index then f item else item) = snd"
    by (auto simp: fun_eq_iff)
  then show ?thesis using False by simp
qed

lemma digitValue_digitChar:
  assumes "d < 10"
  shows "digitValue (digitChar d) = d"
proof -
  have "\<forall>k \<in> set [0..<10]. digitValue (digitChar k) = k"
    by code_simp
  with assms show ?thesis by simp
qed

lemma decimalValue_snoc: "decimalValue (s @ [c]) = 10 * decimalValue s + digitValue c"
  by (simp add: decimalValue_def)

lemma decimalValue_decimal: "decimalValue (decimal n) = n"
proof (induction n rule: decimal.induct)
  case (1 n)
  show ?case
  proof (cases "n < 10")
    case True
    then show ?thesis
      using digitValue_digitChar [of n] by (simp add: decimal.simps [of n] decimalValue_def)
  next
    case False
    then have "decimalValue (decimal n) = 10 * decimalValue (decimal (n div 10)) + digitValue (digitChar (n mod 10))"
      by (simp add: decimal.simps [of n] decimalValue_snoc)
    also have "\<dots> = 10 * (n div 10) + n mod 10"
      using "1.IH" False digitValue_digitChar [of "n mod 10"] by simp
    finally show ?thesis by simp
  qed
qed

lemma digits_decimal: "set (decimal n) \<subseteq> set ''0123456789''"
proof (induction n rule: decimal.induct)
  case (1 n)
  have d: "digitChar k \<in> set ''0123456789''" for k
    unfolding digitChar_def by (rule nth_mem) simp
  show ?case
  proof (cases "n < 10")
    case True
    then show ?thesis using d [of n] by (simp add: decimal.simps [of n])
  next
    case False
    then show ?thesis using "1.IH" d [of "n mod 10"] by (simp add: decimal.simps [of n])
  qed
qed

lemma actualStart_valid: "0 \<le> i \<Longrightarrow> i < int n \<Longrightarrow> actualStart i n = nat i"
  by (simp add: actualStart_def)

lemma actualStart_valid_le: "0 \<le> i \<Longrightarrow> i \<le> int n \<Longrightarrow> actualStart i n = nat i"
  by (simp add: actualStart_def)

lemma moveEntry_valid:
  assumes "0 \<le> src" "src < int (length xs)" "0 \<le> tgt" "tgt < int (length xs)"
  shows "moveEntry src tgt xs =
           Inr (take (nat tgt) (take (nat src) xs @ drop (Suc (nat src)) xs)
                @ xs ! nat src # drop (nat tgt) (take (nat src) xs @ drop (Suc (nat src)) xs))"
proof -
  have a: "actualStart src (length xs) = nat src"
    using assms by (simp add: actualStart_valid)
  have l: "length (take (nat src) xs @ drop (Suc (nat src)) xs) = length xs - 1"
    using assms by auto
  have b: "actualStart tgt (length xs - 1) = nat tgt"
    using assms by (intro actualStart_valid_le) auto
  show ?thesis
    using assms a b l by (simp add: moveEntry_def Let_def)
qed

lemma insert_at_nth:
  "t \<le> length ys \<Longrightarrow> (take t ys @ x # drop t ys) ! t = x"
  by (simp add: nth_append)

lemma insert_at_remove:
  "t \<le> length ys \<Longrightarrow>
   take t (take t ys @ x # drop t ys) @ drop (Suc t) (take t ys @ x # drop t ys) = ys"
  by simp

lemma of_char_no_surrogate:
  "\<not> isHighSurrogate (of_char c) \<and> \<not> isLowSurrogate (of_char c)"
proof -
  have n: "(of_char c :: nat) < 256"
    by simp
  have "unat (of_nat (of_char c) :: 16 word) = of_char c mod 2 ^ 16"
    by (simp add: unat_of_nat)
  also have "\<dots> = of_char c"
  proof (rule mod_less)
    show "(of_char c :: nat) < 2 ^ 16" by (rule less_le_trans [OF n]) simp
  qed
  finally have "unat (of_char c :: 16 word) < 256"
    using n by (simp add: of_nat_of_char)
  then show ?thesis
    by (simp add: isHighSurrogate_def isLowSurrogate_def word_le_nat_alt)
qed

lemma toUSVString_no_surrogate:
  "list_all (\<lambda>c. \<not> isHighSurrogate c \<and> \<not> isLowSurrogate c) str \<Longrightarrow> toUSVString str = str"
  by (induction str rule: toUSVString.induct) simp_all

lemma toUSVString_utf16: "toUSVString (utf16 s) = utf16 s"
  by (rule toUSVString_no_surrogate) (simp add: utf16_def list_all_iff of_char_no_surrogate)

lemma fold_formData:
  "fold (\<lambda>item fd. formData_append (formData_append fd ''files'' (FileValue (file' item)))
                       ''class_names'' (StringValue (className item))) fs acc
     = acc @ concat (map (\<lambda>item. [(''files'', FileValue (file' item)),
                                     (''class_names'', StringValue (toUSVString (className item)))]) fs)"
  by (induction fs arbitrary: acc) (simp_all add: formData_append_def)

lemma buildFormData_eq:
  "buildFormData fs n =
     concat (map (\<lambda>item. [(''files'', FileValue (file' item)),
                            (''class_names'', StringValue (toUSVString (className item)))]) fs)
     @ [(''num_images'', StringValue (toUSVString (toString n)))]"
  unfolding buildFormData_def Let_def fold_formData by (simp add: formData_append_def)

lemma getAll_append: "getAll k (xs @ ys) = getAll k xs @ getAll k ys"
  by (simp add: getAll_def)

lemma getAll_pairs:
  "getAll ''files'' (concat (map (\<lambda>item. [(''files'', FileValue (file' item)),
                            (''class_names'', StringValue (toUSVString (className item)))]) fs))
     = map (\<lambda>item. FileValue (file' item)) fs"
  "getAll ''class_names'' (concat (map (\<lambda>item. [(''files'', FileValue (file' item)),
                            (''class_names'', StringValue (toUSVString (className item)))]) fs))
     = map (\<lambda>item. StringValue (toUSVString (className item))) fs"
  "getAll ''num_images'' (concat (map (\<lambda>item. [(''files'', FileValue (file' item)),
                            (''class_names'', StringValue (toUSVString (className item)))]) fs))
     = []"
  by (induction fs) (simp_all add: getAll_def)

lemma buildFormData_nth:
  assumes "i < length fs"
  shows "buildFormData fs n ! (2 * i) = (''files'', FileValue (file' (fs ! i)))"
    and "buildFormData fs n ! (2 * i + 1)
           = (''class_names'', StringValue (toUSVString (className (fs ! i))))"
  using assms
proof (induction fs arbitrary: i)
  case Nil
  { case 1 then show ?case by simp }
  { case 2 then show ?case by simp }
next
  case (Cons a fs)
  { case 1 then show ?case using Cons.IH(1) [of "i - 1"]
      by (cases i) (simp_all add: buildFormData_eq) }
  { case 2 then show ?case using Cons.IH(2) [of "i - 1"]
      by (cases i) (simp_all add: buildFormData_eq) }
qed

lemma length_buildFormData: "length (buildFormData fs n) = 2 * length fs + 1"
  by (induction fs) (simp_all add: buildFormData_eq)

lemma dropWhile_all_iff:
  "(\<forall>x \<in> set (dropWhile P xs). P x) \<longleftrightarrow> (\<forall>x \<in> set xs. P x)"
proof
  assume h: "\<forall>x \<in> set (dropWhile P xs). P x"
  have "dropWhile P xs = []"
  proof (cases "dropWhile P xs")
    case Nil
    then show ?thesis .
  next
    case (Cons y ys)
    then have "\<not> P y" using hd_dropWhile [of P xs] by simp
    moreover have "P y" using h Cons by simp
    ultimately show ?thesis by simp
  qed
  then show "\<forall>x \<in> set xs. P x" by (simp add: dropWhile_eq_Nil_conv)
next
  assume "\<forall>x \<in> set xs. P x"
  then show "\<forall>x \<in> set (dropWhile P xs). P x"
    by (auto dest: set_dropWhileD)
qed

lemma trim_empty_iff: "trim s = [] \<longleftrightarrow> list_all isWhiteSpace s"
  by (simp add: trim_def dropWhile_eq_Nil_conv dropWhile_all_iff list_all_iff)

lemma length_insert_at: "length (take t ys @ x # drop t ys) = Suc (length ys)"
  by auto

lemma decimal_not_Nil: "decimal n \<noteq> []"
  by (simp add: decimal.simps [of n])

lemma readInt_showInt: "readInt (showInt n) = n"
proof (cases "n < 0")
  case True
  then show ?thesis
    by (simp add: readInt_def showInt_def decimalValue_decimal)
next
  case False
  obtain c cs where d: "decimal (nat n) = c # cs"
    using decimal_not_Nil [of "nat n"] by (cases "decimal (nat n)") auto
  then have "c \<in> set ''0123456789''"
    using digits_decimal [of "nat n"] by auto
  then have "c \<noteq> CHR ''-''" by auto
  with False d show ?thesis
    using decimalValue_decimal [of "nat n"] by (simp add: readInt_def showInt_def)
qed

subsection \<open>Facts about sessions\<close>

lemma run_reachable: "reachable c \<Longrightarrow> run evs c = Some c' \<Longrightarrow> reachable c'"
proof (induction evs arbitrary: c)
  case Nil
  then show ?case by simp
next
  case (Cons ev evs)
  then show ?case
    by (auto split: option.splits intro: reachable_step)
qed

lemma session_inv_init: "session_inv init_config"
  by (simp add: session_inv_def init_config_def init_state_def)

lemma handleDrop_request_state:
  "handleDrop src tgt s = Inr s' \<Longrightarrow>
   isLoading s' = isLoading s \<and> error s' = error s \<and> downloadUrl s' = downloadUrl s"
  by (auto simp: handleDrop_def split: if_splits sum.splits)

lemma session_inv_step:
  assumes "session_inv c" and "step ev c = Some c'"
  shows "session_inv c'"
proof (cases ev)
  case (DropFiles fs)
  with assms show ?thesis
    by (auto simp: session_inv_def onDrop_def)
next
  case (ClassNameChange i v)
  with assms show ?thesis
    by (auto simp: session_inv_def handleClassNameChange_def)
next
  case (RemoveFile i)
  with assms show ?thesis
    by (auto simp: session_inv_def removeFile_def)
next
  case (DragStart i)
  with assms show ?thesis
    by (auto simp: session_inv_def handleDragStart_def)
next
  case (DragOver i)
  with assms show ?thesis
    by (auto simp: session_inv_def handleDragOver_def)
next
  case (DropOn src tgt)
  with assms obtain s' where h: "handleDrop src tgt (app c) = Inr s'" and c': "c' = c\<lparr>app := s'\<rparr>"
    by (auto split: sum.splits)
  from handleDrop_request_state [OF h] assms(1) show ?thesis
    by (simp add: session_inv_def c')
next
  case (SetNumImages n)
  with assms show ?thesis
    by (auto simp: session_inv_def)
next
  case Submit
  with assms show ?thesis
    by (auto simp: session_inv_def submitForm_def handleSubmit_def split: if_splits)
next
  case (Response r)
  with assms obtain req rest where p: "pending c = req # rest" and c': "c' = settle r (c\<lparr>pending := rest\<rparr>)"
    by (auto split: list.splits)
  from assms(1) p have rest: "rest = []" and l: "isLoading (app c)"
    by (auto simp: session_inv_def)
  with assms(1) have e: "error (app c) = None" "downloadUrl (app c) = None"
    by (auto simp: session_inv_def)
  show ?thesis
    using rest e by (cases r) (simp_all add: session_inv_def c' settle_def createObjectURL_def)
qed

lemma reachable_session_inv: "reachable c \<Longrightarrow> session_inv c"
  by (induction rule: reachable.induct) (auto intro: session_inv_init session_inv_step)

lemma run_submitted_session: "run submitted_session init_config = Some in_flight_config"
  by (simp add: submitted_session_def init_config_def init_state_def in_flight_config_def
      onDrop_def handleClassNameChange_def submitForm_def handleSubmit_def entryOf_def
      utf16_def trim_def isWhiteSpace_def)

lemma run_append:
  "run (evs @ evs') c = (case run evs c of None \<Rightarrow> None | Some c' \<Rightarrow> run evs' c')"
  by (induction evs arbitrary: c) (auto split: option.splits)

lemma run_relabelled_session: "run relabelled_session init_config = Some relabelled_config"
  by (simp add: relabelled_session_def run_append run_submitted_session in_flight_config_def
      relabelled_config_def settle_def createObjectURL_def
      handleClassNameChange_def submitForm_def handleSubmit_def entryOf_def
      utf16_def trim_def isWhiteSpace_def)

lemma run_resubmitted_session: "run resubmitted_session init_config = Some resubmitted_config"
  by (simp add: resubmitted_session_def run_append run_submitted_session in_flight_config_def
      resubmitted_config_def settle_def createObjectURL_def
      handleClassNameChange_def submitForm_def handleSubmit_def entryOf_def
      utf16_def trim_def isWhiteSpace_def)

lemma step_objectUrls:
  "step ev c = Some c' \<Longrightarrow>
   objectUrls c' = objectUrls c @ (case ev of Response (Some blob) \<Rightarrow> [blob] | _ \<Rightarrow> [])"
  by (cases ev)
     (auto simp: settle_def createObjectURL_def split: sum.splits list.splits option.splits prod.splits)

lemma run_objectUrls:
  "run evs c = Some c' \<Longrightarrow>
   take (length (objectUrls c)) (objectUrls c') = objectUrls c
   \<and> length (objectUrls c') = length (objectUrls c) + length (filter isSuccess evs)"
proof (induction evs arbitrary: c)
  case Nil
  then show ?case by simp
next
  case (Cons ev evs)
  then obtain c1 where s: "step ev c = Some c1" and r: "run evs c1 = Some c'"
    by (auto split: option.splits)
  from step_objectUrls [OF s]
  have o: "objectUrls c1 = objectUrls c @ (case ev of Response (Some blob) \<Rightarrow> [blob] | _ \<Rightarrow> [])" .
  have n: "length (case ev of Response (Some blob) \<Rightarrow> [blob] | _ \<Rightarrow> []) = length (filter isSuccess [ev])"
    by (cases ev) (auto split: option.splits)
  from Cons.IH [OF r]
  have t: "take (length (objectUrls c1)) (objectUrls c') = objectUrls c1"
    and l: "length (objectUrls c') = length (objectUrls c1) + length (filter isSuccess evs)"
    by blast+
  have "take (length (objectUrls c)) (objectUrls c') = take (length (objectUrls c)) (take (length (objectUrls c1)) (objectUrls c'))"
    using o by (simp add: min_def)
  also have "\<dots> = objectUrls c"
    unfolding t using o by simp
  finally have 1: "take (length (objectUrls c)) (objectUrls c') = objectUrls c" .
  have 2: "length (objectUrls c') = length (objectUrls c) + length (filter isSuccess (ev # evs))"
    using l o n by (cases "isSuccess ev") auto
  from 1 2 show ?case by blast
qed

subsection \<open>Appending files\<close>

text \<open>
  C8. For every prior state and every sequence of accepted files, the dropzone's
  \<open>onDrop\<close> makes one entry per file with the empty string as class name, puts the new
  entries after the existing ones, which stay as they were and in their order, and sets
  both the error and the download URL to null.
\<close>

theorem onDrop_appends_and_clears:
  "files (onDrop acceptedFiles s)
     = files s @ map (\<lambda>f. \<lparr>file' = f, className = []\<rparr>) acceptedFiles
   \<and> length (files (onDrop acceptedFiles s)) = length (files s) + length acceptedFiles
   \<and> take (length (files s)) (files (onDrop acceptedFiles s)) = files s
   \<and> map file' (drop (length (files s)) (files (onDrop acceptedFiles s))) = acceptedFiles
   \<and> list_all (\<lambda>e. className e = []) (drop (length (files s)) (files (onDrop acceptedFiles s)))
   \<and> error (onDrop acceptedFiles s) = None
   \<and> downloadUrl (onDrop acceptedFiles s) = None
   \<and> isLoading (onDrop acceptedFiles s) = isLoading s
   \<and> numImages (onDrop acceptedFiles s) = numImages s"
  by (simp add: onDrop_def list_all_iff comp_def)

subsection \<open>Reordering\<close>

text \<open>
  C2. For every collection and every pair of valid indices with
  \<open>sourceIndex \<noteq> targetIndex\<close>, the drop handler performs a splice-move: it removes
  the entry at \<open>sourceIndex\<close> and inserts it at position \<open>targetIndex\<close> of the
  already shortened sequence. The length is kept, the moved entry stands at
  \<open>targetIndex\<close>, and the other entries keep their order. In particular moving 0 to 2
  in \<open>[A, B, C, D]\<close> gives \<open>[B, C, A, D]\<close>, and moving 3 to 0 gives
  \<open>[D, A, B, C]\<close>.
\<close>

theorem handleDrop_splice_move:
  assumes "0 \<le> sourceIndex" "sourceIndex < int (length (files s))"
    and "0 \<le> targetIndex" "targetIndex < int (length (files s))"
    and "sourceIndex \<noteq> targetIndex"
  shows "(let shortened = take (nat sourceIndex) (files s) @ drop (Suc (nat sourceIndex)) (files s);
              moved = take (nat targetIndex) shortened
                      @ files s ! nat sourceIndex # drop (nat targetIndex) shortened
          in handleDrop sourceIndex targetIndex s
               = Inr (s\<lparr>files := moved, activeDragIndex := None\<rparr>)
             \<and> length moved = length (files s)
             \<and> moved ! nat targetIndex = files s ! nat sourceIndex
             \<and> take (nat targetIndex) moved @ drop (Suc (nat targetIndex)) moved = shortened)
         \<and> moveEntry 0 2 [''A'', ''B'', ''C'', ''D''] = Inr [''B'', ''C'', ''A'', ''D'']
         \<and> moveEntry 3 0 [''A'', ''B'', ''C'', ''D''] = Inr [''D'', ''A'', ''B'', ''C'']"
proof -
  define ys where "ys = take (nat sourceIndex) (files s) @ drop (Suc (nat sourceIndex)) (files s)"
  define zs where "zs = take (nat targetIndex) ys @ files s ! nat sourceIndex # drop (nat targetIndex) ys"
  have len: "Suc (length ys) = length (files s)"
    using assms(1,2) by (auto simp: ys_def)
  then have t: "nat targetIndex \<le> length ys"
    using assms(3,4) by linarith
  have m: "moveEntry sourceIndex targetIndex (files s) = Inr zs"
    unfolding zs_def ys_def using assms(1-4) by (rule moveEntry_valid)
  have d: "handleDrop sourceIndex targetIndex s = Inr (s\<lparr>files := zs, activeDragIndex := None\<rparr>)"
    using assms(5) m by (simp add: handleDrop_def)
  have l: "length zs = length (files s)"
    unfolding zs_def length_insert_at using len .
  have n: "zs ! nat targetIndex = files s ! nat sourceIndex"
    unfolding zs_def using t by (rule insert_at_nth)
  have r: "take (nat targetIndex) zs @ drop (Suc (nat targetIndex)) zs = ys"
    unfolding zs_def using t by (rule insert_at_remove)
  have e1: "moveEntry 0 2 [''A'', ''B'', ''C'', ''D''] = Inr [''B'', ''C'', ''A'', ''D'']"
    by (simp add: moveEntry_def actualStart_def)
  have e2: "moveEntry 3 0 [''A'', ''B'', ''C'', ''D''] = Inr [''D'', ''A'', ''B'', ''C'']"
    by (simp add: moveEntry_def actualStart_def)
  from d l n r e1 e2 show ?thesis
    unfolding Let_def zs_def ys_def by blast
qed

text \<open>The two moves of the claim, run through the handler on a state of four entries.\<close>

theorem handleDrop_splice_move_witness:
  "handleDrop 0 2 (sample_state [entryOf ''A'' ''a'', entryOf ''B'' ''b'', entryOf ''C'' ''c'',
                                 entryOf ''D'' ''d''])
     = Inr (sample_state [entryOf ''B'' ''b'', entryOf ''C'' ''c'', entryOf ''A'' ''a'',
                          entryOf ''D'' ''d''])
   \<and> handleDrop 3 0 (sample_state [entryOf ''A'' ''a'', entryOf ''B'' ''b'', entryOf ''C'' ''c'',
                                   entryOf ''D'' ''d''])
     = Inr (sample_state [entryOf ''D'' ''d'', entryOf ''A'' ''a'', entryOf ''B'' ''b'',
                          entryOf ''C'' ''c''])"
  using handleDrop_splice_move
          [of 0 "sample_state [entryOf ''A'' ''a'', entryOf ''B'' ''b'', entryOf ''C'' ''c'',
                               entryOf ''D'' ''d'']" 2]
        handleDrop_splice_move
          [of 3 "sample_state [entryOf ''A'' ''a'', entryOf ''B'' ''b'', entryOf ''C'' ''c'',
                               entryOf ''D'' ''d'']" 0]
  by (simp add: sample_state_def)

subsection \<open>Validation before the request\<close>

text \<open>
  C3. For every state, \<open>handleSubmit\<close> validates before any network call. It ends with
  the message "Please select at least one image file" exactly when the collection is
  empty; otherwise it ends with "Please provide a class name for each image" exactly when
  some entry's class name is empty after trimming; otherwise validation succeeds and the
  one request is issued. On either failure no request is issued and nothing but the
  error changes.
\<close>

theorem handleSubmit_validates_first:
  "(error (fst (handleSubmit s)) = Some ''Please select at least one image file''
      \<longleftrightarrow> files s = [])
   \<and> (files s \<noteq> [] \<longrightarrow>
        (error (fst (handleSubmit s)) = Some ''Please provide a class name for each image''
           \<longleftrightarrow> list_ex (\<lambda>item. trim (className item) = []) (files s)))
   \<and> (files s \<noteq> [] \<and> \<not> list_ex (\<lambda>item. trim (className item) = []) (files s) \<longrightarrow>
        error (fst (handleSubmit s)) = None \<and> isLoading (fst (handleSubmit s))
        \<and> length (snd (handleSubmit s)) = 1)
   \<and> (files s = [] \<or> list_ex (\<lambda>item. trim (className item) = []) (files s) \<longrightarrow>
        snd (handleSubmit s) = []
        \<and> files (fst (handleSubmit s)) = files s
        \<and> isLoading (fst (handleSubmit s)) = isLoading s
        \<and> downloadUrl (fst (handleSubmit s)) = downloadUrl s)"
  by (simp add: handleSubmit_def)

text \<open>
  The three outcomes on concrete states: no entry, one entry whose label is a single
  space, one entry labelled \<open>cat\<close>.
\<close>

theorem handleSubmit_validates_first_witness:
  "error (fst (handleSubmit (sample_state []))) = Some ''Please select at least one image file''
   \<and> snd (handleSubmit (sample_state [])) = []
   \<and> error (fst (handleSubmit (sample_state [entryOf ''cat.jpg'' '' ''])))
       = Some ''Please provide a class name for each image''
   \<and> snd (handleSubmit (sample_state [entryOf ''cat.jpg'' '' ''])) = []
   \<and> error (fst (handleSubmit (sample_state [entryOf ''cat.jpg'' ''cat'']))) = None
   \<and> length (snd (handleSubmit (sample_state [entryOf ''cat.jpg'' ''cat'']))) = 1"
proof -
  have e: "files (sample_state []) = []"
    by (simp add: sample_state_def)
  have b: "files (sample_state [entryOf ''cat.jpg'' '' '']) \<noteq> []
           \<and> list_ex (\<lambda>item. trim (className item) = []) (files (sample_state [entryOf ''cat.jpg'' '' '']))"
    by (simp add: sample_state_def entryOf_def utf16_def trim_def isWhiteSpace_def)
  have g: "files (sample_state [entryOf ''cat.jpg'' ''cat'']) \<noteq> []
           \<and> \<not> list_ex (\<lambda>item. trim (className item) = []) (files (sample_state [entryOf ''cat.jpg'' ''cat'']))"
    by (simp add: sample_state_def entryOf_def utf16_def trim_def isWhiteSpace_def)
  show ?thesis
    using e b g
      handleSubmit_validates_first [of "sample_state []"]
      handleSubmit_validates_first [of "sample_state [entryOf ''cat.jpg'' '' '']"]
      handleSubmit_validates_first [of "sample_state [entryOf ''cat.jpg'' ''cat'']"]
    by blast
qed

subsection \<open>The payload\<close>

text \<open>
  C4. For every collection that passes validation, whatever \<open>numImages\<close> holds, the one
  request carries a form with exactly one \<open>files\<close> field and one \<open>class_names\<close>
  field per entry, in collection order, the two fields of an entry next to each other
  and taken from that entry (the class name as \<^verbatim>\<open>FormData\<close> stores a string: verbatim
  when it holds no surrogate code unit), and after them a single \<open>num_images\<close> field,
  the printed \<open>numImages\<close>. When \<open>numImages\<close> is an integer \<open>n\<close> of magnitude at most
  \<open>2\<^sup>5\<^sup>3 - 1\<close>, which covers the configuration's range from 1 to 100, that field is
  the decimal numeral of \<open>n\<close>: reading it back gives \<open>n\<close>.
\<close>

theorem payload_fields_paired:
  assumes "files s \<noteq> []"
    and "\<not> list_ex (\<lambda>item. trim (className item) = []) (files s)"
  shows "(let formData = buildFormData (files s) (numImages s)
          in snd (handleSubmit s)
               = [\<lparr>url = ''https://www.aiocr.go-ai.one/yolo-api/augment/'', body = formData\<rparr>]
             \<and> getAll ''files'' formData = map (\<lambda>item. FileValue (file' item)) (files s)
             \<and> getAll ''class_names'' formData
                 = map (\<lambda>item. StringValue (toUSVString (className item))) (files s)
             \<and> getAll ''num_images'' formData
                 = [StringValue (toUSVString (toString (numImages s)))]
             \<and> length formData = 2 * length (files s) + 1
             \<and> (\<forall>i < length (files s).
                   formData ! (2 * i) = (''files'', FileValue (file' (files s ! i)))
                   \<and> formData ! (2 * i + 1)
                       = (''class_names'', StringValue (toUSVString (className (files s ! i))))
                   \<and> (list_all (\<lambda>c. \<not> isHighSurrogate c \<and> \<not> isLowSurrogate c)
                         (className (files s ! i)) \<longrightarrow>
                        formData ! (2 * i + 1)
                          = (''class_names'', StringValue (className (files s ! i)))))
             \<and> (\<forall>n. \<bar>n\<bar> \<le> 2 ^ 53 - 1 \<and> numImages s = IntVal (safeInteger n) \<longrightarrow>
                   getAll ''num_images'' formData = [StringValue (utf16 (showInt n))]
                   \<and> readInt (showInt n) = n))"
proof -
  define fd where "fd = buildFormData (files s) (numImages s)"
  have req: "snd (handleSubmit s)
               = [\<lparr>url = ''https://www.aiocr.go-ai.one/yolo-api/augment/'', body = fd\<rparr>]"
    using assms by (simp add: handleSubmit_def fd_def)
  have f: "getAll ''files'' fd = map (\<lambda>item. FileValue (file' item)) (files s)"
    by (simp add: fd_def buildFormData_eq getAll_append getAll_pairs) (simp add: getAll_def)
  have c: "getAll ''class_names'' fd
             = map (\<lambda>item. StringValue (toUSVString (className item))) (files s)"
    by (simp add: fd_def buildFormData_eq getAll_append getAll_pairs) (simp add: getAll_def)
  have n: "getAll ''num_images'' fd = [StringValue (toUSVString (toString (numImages s)))]"
    by (simp add: fd_def buildFormData_eq getAll_append getAll_pairs) (simp add: getAll_def)
  have l: "length fd = 2 * length (files s) + 1"
    unfolding fd_def by (rule length_buildFormData)
  have p: "\<forall>i < length (files s).
             fd ! (2 * i) = (''files'', FileValue (file' (files s ! i)))
             \<and> fd ! (2 * i + 1)
                 = (''class_names'', StringValue (toUSVString (className (files s ! i))))
             \<and> (list_all (\<lambda>c. \<not> isHighSurrogate c \<and> \<not> isLowSurrogate c)
                   (className (files s ! i)) \<longrightarrow>
                  fd ! (2 * i + 1) = (''class_names'', StringValue (className (files s ! i))))"
  proof (intro allI impI conjI)
    fix i
    assume i: "i < length (files s)"
    show "fd ! (2 * i) = (''files'', FileValue (file' (files s ! i)))"
      unfolding fd_def using i by (rule buildFormData_nth(1))
    show e: "fd ! (2 * i + 1)
               = (''class_names'', StringValue (toUSVString (className (files s ! i))))"
      unfolding fd_def using i by (rule buildFormData_nth(2))
    assume "list_all (\<lambda>c. \<not> isHighSurrogate c \<and> \<not> isLowSurrogate c)
              (className (files s ! i))"
    then have "toUSVString (className (files s ! i)) = className (files s ! i)"
      by (rule toUSVString_no_surrogate)
    with e show "fd ! (2 * i + 1) = (''class_names'', StringValue (className (files s ! i)))"
      by simp
  qed
  have d: "\<forall>m. \<bar>m\<bar> \<le> 2 ^ 53 - 1 \<and> numImages s = IntVal (safeInteger m) \<longrightarrow>
             getAll ''num_images'' fd = [StringValue (utf16 (showInt m))]
             \<and> readInt (showInt m) = m"
  proof (intro allI impI)
    fix m :: int
    assume h: "\<bar>m\<bar> \<le> 2 ^ 53 - 1 \<and> numImages s = IntVal (safeInteger m)"
    from h have "m \<in> {n :: int. \<bar>n\<bar> \<le> 2 ^ 53 - 1}"
      by blast
    then have "intOf (safeInteger m) = m"
      by (rule safeInteger_inverse)
    moreover from h have "toString (numImages s) = utf16 (showInt (intOf (safeInteger m)))"
      by (simp only: toString.simps)
    ultimately have t: "toString (numImages s) = utf16 (showInt m)"
      by (simp only:)
    have "getAll ''num_images'' fd = [StringValue (utf16 (showInt m))]"
      unfolding n t toUSVString_utf16 ..
    moreover have "readInt (showInt m) = m"
      by (rule readInt_showInt)
    ultimately show "getAll ''num_images'' fd = [StringValue (utf16 (showInt m))]
                     \<and> readInt (showInt m) = m" ..
  qed
  from req f c n l p d show ?thesis
    unfolding Let_def fd_def by (intro conjI)
qed

text \<open>
  Scenario A of the specification: three entries and \<open>numImages = 5\<close>. With the number
  input cleared, \<open>numImages\<close> is NaN: the entries are paired as before and the last
  field is \<^verbatim>\<open>"NaN"\<close>.
\<close>

theorem payload_fields_paired_witness:
  "body (hd (snd (handleSubmit
       (sample_state [entryOf ''cat.jpg'' ''cat'', entryOf ''dog.jpg'' ''dog'',
                      entryOf ''bird.jpg'' ''bird'']))))
     = [(''files'', FileValue ''cat.jpg''), (''class_names'', StringValue (utf16 ''cat'')),
        (''files'', FileValue ''dog.jpg''), (''class_names'', StringValue (utf16 ''dog'')),
        (''files'', FileValue ''bird.jpg''), (''class_names'', StringValue (utf16 ''bird'')),
        (''num_images'', StringValue (utf16 ''5''))]
   \<and> getAll ''num_images'' (buildFormData
       [entryOf ''cat.jpg'' ''cat'', entryOf ''dog.jpg'' ''dog'', entryOf ''bird.jpg'' ''bird'']
       (IntVal (safeInteger 5)))
     = [StringValue (utf16 (showInt 5))]
   \<and> readInt (showInt 5) = 5
   \<and> getAll ''class_names'' (body (hd (snd (handleSubmit
       ((sample_state [entryOf ''cat.jpg'' ''cat'', entryOf ''dog.jpg'' ''dog''])
          \<lparr>numImages := NaN\<rparr>)))))
     = [StringValue (utf16 ''cat''), StringValue (utf16 ''dog'')]
   \<and> getAll ''num_images'' (body (hd (snd (handleSubmit
       ((sample_state [entryOf ''cat.jpg'' ''cat'', entryOf ''dog.jpg'' ''dog''])
          \<lparr>numImages := NaN\<rparr>)))))
     = [StringValue (utf16 ''NaN'')]"
proof -
  let ?s = "sample_state [entryOf ''cat.jpg'' ''cat'', entryOf ''dog.jpg'' ''dog'',
                          entryOf ''bird.jpg'' ''bird'']"
  let ?t = "(sample_state [entryOf ''cat.jpg'' ''cat'', entryOf ''dog.jpg'' ''dog''])
              \<lparr>numImages := NaN\<rparr>"
  have v: "files ?s \<noteq> []"
    by (simp add: sample_state_def)
  have w: "\<not> list_ex (\<lambda>item. trim (className item) = []) (files ?s)"
    by (simp add: sample_state_def entryOf_def utf16_def trim_def isWhiteSpace_def)
  have k: "\<bar>5 :: int\<bar> \<le> 2 ^ 53 - 1 \<and> numImages ?s = IntVal (safeInteger 5)"
    by (simp add: sample_state_def)
  have i: "intOf (safeInteger 5) = 5"
    by (simp add: safeInteger_inverse)
  have b: "buildFormData (files ?s) (numImages ?s)
     = [(''files'', FileValue ''cat.jpg''), (''class_names'', StringValue (utf16 ''cat'')),
        (''files'', FileValue ''dog.jpg''), (''class_names'', StringValue (utf16 ''dog'')),
        (''files'', FileValue ''bird.jpg''), (''class_names'', StringValue (utf16 ''bird'')),
        (''num_images'', StringValue (utf16 ''5''))]"
    by (simp add: sample_state_def buildFormData_eq entryOf_def showInt_def i toUSVString_utf16
        decimal.simps [of 5] digitChar_def)
  have fs: "files ?s = [entryOf ''cat.jpg'' ''cat'', entryOf ''dog.jpg'' ''dog'',
                        entryOf ''bird.jpg'' ''bird'']"
    and ns: "numImages ?s = IntVal (safeInteger 5)"
    by (simp_all add: sample_state_def)
  note a = payload_fields_paired [OF v w]
  from a have r: "snd (handleSubmit ?s)
      = [\<lparr>url = ''https://www.aiocr.go-ai.one/yolo-api/augment/'',
          body = buildFormData (files ?s) (numImages ?s)\<rparr>]"
    unfolding Let_def by blast
  from a k have g: "getAll ''num_images'' (buildFormData (files ?s) (numImages ?s))
      = [StringValue (utf16 (showInt 5))] \<and> readInt (showInt 5) = 5"
    unfolding Let_def by blast
  have v': "files ?t \<noteq> []"
    by (simp add: sample_state_def)
  have w': "\<not> list_ex (\<lambda>item. trim (className item) = []) (files ?t)"
    by (simp add: sample_state_def entryOf_def utf16_def trim_def isWhiteSpace_def)
  note a' = payload_fields_paired [OF v' w']
  from a' have r': "snd (handleSubmit ?t)
      = [\<lparr>url = ''https://www.aiocr.go-ai.one/yolo-api/augment/'',
          body = buildFormData (files ?t) (numImages ?t)\<rparr>]"
    unfolding Let_def by blast
  from a' have c': "getAll ''class_names'' (buildFormData (files ?t) (numImages ?t))
      = map (\<lambda>item. StringValue (toUSVString (className item))) (files ?t)"
    unfolding Let_def by blast
  from a' have n': "getAll ''num_images'' (buildFormData (files ?t) (numImages ?t))
      = [StringValue (toUSVString (toString (numImages ?t)))]"
    unfolding Let_def by blast
  have c'': "map (\<lambda>item. StringValue (toUSVString (className item))) (files ?t)
      = [StringValue (utf16 ''cat''), StringValue (utf16 ''dog'')]"
    by (simp add: sample_state_def entryOf_def toUSVString_utf16)
  have n'': "toUSVString (toString (numImages ?t)) = utf16 ''NaN''"
    by (simp add: toUSVString_utf16)
  have 1: "body (hd (snd (handleSubmit ?s)))
     = [(''files'', FileValue ''cat.jpg''), (''class_names'', StringValue (utf16 ''cat'')),
        (''files'', FileValue ''dog.jpg''), (''class_names'', StringValue (utf16 ''dog'')),
        (''files'', FileValue ''bird.jpg''), (''class_names'', StringValue (utf16 ''bird'')),
        (''num_images'', StringValue (utf16 ''5''))]"
    unfolding r using b by simp
  have 2: "getAll ''num_images'' (buildFormData
       [entryOf ''cat.jpg'' ''cat'', entryOf ''dog.jpg'' ''dog'', entryOf ''bird.jpg'' ''bird'']
       (IntVal (safeInteger 5)))
     = [StringValue (utf16 (showInt 5))] \<and> readInt (showInt 5) = 5"
    using g unfolding fs ns .
  have 3: "getAll ''class_names'' (body (hd (snd (handleSubmit ?t))))
     = [StringValue (utf16 ''cat''), StringValue (utf16 ''dog'')]"
    unfolding r' using c' c'' by simp
  have 4: "getAll ''num_images'' (body (hd (snd (handleSubmit ?t))))
     = [StringValue (utf16 ''NaN'')]"
    unfolding r' using n' n'' by simp
  from 1 2 3 4 show ?thesis by blast
qed

subsection \<open>Indices out of range\<close>

text \<open>
  C6, as the claim states it, fails: with an index outside \<open>[0, length)\<close> the
  specification's operations fail with \<open>IndexOutOfRange\<close>, while \<open>removeFile\<close> and
  \<open>handleClassNameChange\<close> return normally with the state unchanged. The handlers
  have no error result: \<^verbatim>\<open>filter\<close> and \<^verbatim>\<open>map\<close> compare every position with
  the index and find none equal.
\<close>

theorem out_of_range_index_counterexample:
  "remove_spec 2 (files (sample_state [entryOf ''cat.jpg'' ''cat'', entryOf ''dog.jpg'' ''dog'']))
     = Inl IndexOutOfRange
   \<and> removeFile 2 (sample_state [entryOf ''cat.jpg'' ''cat'', entryOf ''dog.jpg'' ''dog''])
     = sample_state [entryOf ''cat.jpg'' ''cat'', entryOf ''dog.jpg'' ''dog'']
   \<and> setClassName_spec (- 1) (utf16 ''bird'')
         (files (sample_state [entryOf ''cat.jpg'' ''cat'', entryOf ''dog.jpg'' ''dog'']))
     = Inl IndexOutOfRange
   \<and> handleClassNameChange (- 1) (utf16 ''bird'')
         (sample_state [entryOf ''cat.jpg'' ''cat'', entryOf ''dog.jpg'' ''dog''])
     = sample_state [entryOf ''cat.jpg'' ''cat'', entryOf ''dog.jpg'' ''dog'']"
  by (simp add: remove_spec_def setClassName_spec_def removeFile_def handleClassNameChange_def
      sample_state_def enumerate_eq_zip upt_rec)

text \<open>
  C6, amended. For every collection and every index outside \<open>[0, length)\<close>,
  \<open>removeFile\<close> and \<open>handleClassNameChange\<close> leave the state unchanged and raise
  nothing. For a valid index they do what the specification's operations do:
  \<open>removeFile\<close> deletes the entry, every later entry moving one position down, and
  \<open>handleClassNameChange\<close> overwrites the class name of that entry with the value as
  given, keeping its file.
\<close>

theorem removeFile_handleClassNameChange_total:
  "removeFile index s
     = s\<lparr>files := (case remove_spec index (files s) of
                      Inr remaining \<Rightarrow> remaining
                    | Inl IndexOutOfRange \<Rightarrow> files s)\<rparr>
   \<and> handleClassNameChange index v s
     = s\<lparr>files := (case setClassName_spec index v (files s) of
                      Inr updated \<Rightarrow> updated
                    | Inl IndexOutOfRange \<Rightarrow> files s)\<rparr>
   \<and> (\<not> (0 \<le> index \<and> index < int (length (files s))) \<longrightarrow>
        removeFile index s = s \<and> handleClassNameChange index v s = s)
   \<and> (0 \<le> index \<and> index < int (length (files s)) \<longrightarrow>
        files (removeFile index s)
          = take (nat index) (files s) @ drop (Suc (nat index)) (files s)
        \<and> length (files (removeFile index s)) = length (files s) - 1
        \<and> (\<forall>j < length (files s) - 1.
              files (removeFile index s) ! j
                = (if j < nat index then files s ! j else files s ! Suc j))
        \<and> files (handleClassNameChange index v s)
          = (files s)[nat index := (files s ! nat index)\<lparr>className := v\<rparr>]
        \<and> className (files (handleClassNameChange index v s) ! nat index) = v
        \<and> file' (files (handleClassNameChange index v s) ! nat index)
          = file' (files s ! nat index))"
proof -
  have r: "files (removeFile index s)
             = (if 0 \<le> index \<and> index < int (length (files s))
                then take (nat index) (files s) @ drop (Suc (nat index)) (files s)
                else files s)"
    by (simp add: removeFile_def filter_enumerate_int)
  have c: "files (handleClassNameChange index v s)
             = (if 0 \<le> index \<and> index < int (length (files s))
                then (files s)[nat index := (files s ! nat index)\<lparr>className := v\<rparr>]
                else files s)"
    by (simp add: handleClassNameChange_def map_enumerate_int)
  have r': "removeFile index s = s\<lparr>files := files (removeFile index s)\<rparr>"
    by (simp add: removeFile_def)
  have c': "handleClassNameChange index v s = s\<lparr>files := files (handleClassNameChange index v s)\<rparr>"
    by (simp add: handleClassNameChange_def)
  have 1: "removeFile index s
     = s\<lparr>files := (case remove_spec index (files s) of
                      Inr remaining \<Rightarrow> remaining
                    | Inl IndexOutOfRange \<Rightarrow> files s)\<rparr>"
    by (subst r') (simp add: r remove_spec_def)
  have 2: "handleClassNameChange index v s
     = s\<lparr>files := (case setClassName_spec index v (files s) of
                      Inr updated \<Rightarrow> updated
                    | Inl IndexOutOfRange \<Rightarrow> files s)\<rparr>"
    by (subst c') (simp add: c setClassName_spec_def)
  have 3: "\<not> (0 \<le> index \<and> index < int (length (files s))) \<longrightarrow>
        removeFile index s = s \<and> handleClassNameChange index v s = s"
  proof
    assume h: "\<not> (0 \<le> index \<and> index < int (length (files s)))"
    have "removeFile index s = s" by (subst r') (simp add: r h)
    moreover have "handleClassNameChange index v s = s" by (subst c') (simp add: c h)
    ultimately show "removeFile index s = s \<and> handleClassNameChange index v s = s" ..
  qed
  have 4: "0 \<le> index \<and> index < int (length (files s)) \<longrightarrow>
        files (removeFile index s)
          = take (nat index) (files s) @ drop (Suc (nat index)) (files s)
        \<and> length (files (removeFile index s)) = length (files s) - 1
        \<and> (\<forall>j < length (files s) - 1.
              files (removeFile index s) ! j
                = (if j < nat index then files s ! j else files s ! Suc j))
        \<and> files (handleClassNameChange index v s)
          = (files s)[nat index := (files s ! nat index)\<lparr>className := v\<rparr>]
        \<and> className (files (handleClassNameChange index v s) ! nat index) = v
        \<and> file' (files (handleClassNameChange index v s) ! nat index)
          = file' (files s ! nat index)"
  proof
    assume h: "0 \<le> index \<and> index < int (length (files s))"
    then have k: "nat index < length (files s)" by linarith
    have a: "files (removeFile index s)
          = take (nat index) (files s) @ drop (Suc (nat index)) (files s)"
      using h by (simp add: r)
    have b: "length (files (removeFile index s)) = length (files s) - 1"
      using k by (simp add: a)
    have d: "\<forall>j < length (files s) - 1.
              files (removeFile index s) ! j
                = (if j < nat index then files s ! j else files s ! Suc j)"
      using k by (auto simp: a nth_append)
    have e: "files (handleClassNameChange index v s)
          = (files s)[nat index := (files s ! nat index)\<lparr>className := v\<rparr>]"
      using h by (simp add: c)
    have f: "className (files (handleClassNameChange index v s) ! nat index) = v"
      using k by (simp add: e)
    have g: "file' (files (handleClassNameChange index v s) ! nat index)
          = file' (files s ! nat index)"
      using k by (simp add: e)
    from a b d e f g show "files (removeFile index s)
          = take (nat index) (files s) @ drop (Suc (nat index)) (files s)
        \<and> length (files (removeFile index s)) = length (files s) - 1
        \<and> (\<forall>j < length (files s) - 1.
              files (removeFile index s) ! j
                = (if j < nat index then files s ! j else files s ! Suc j))
        \<and> files (handleClassNameChange index v s)
          = (files s)[nat index := (files s ! nat index)\<lparr>className := v\<rparr>]
        \<and> className (files (handleClassNameChange index v s) ! nat index) = v
        \<and> file' (files (handleClassNameChange index v s) ! nat index)
          = file' (files s ! nat index)"
      by blast
  qed
  from 1 2 3 4 show ?thesis by blast
qed

text \<open>Removing and relabelling the first of three entries, and removing at index 3.\<close>

theorem removeFile_handleClassNameChange_total_witness:
  "files (removeFile 0 (sample_state [entryOf ''cat.jpg'' ''cat'', entryOf ''dog.jpg'' ''dog'',
                                      entryOf ''bird.jpg'' ''bird'']))
     = [entryOf ''dog.jpg'' ''dog'', entryOf ''bird.jpg'' ''bird'']
   \<and> files (handleClassNameChange 0 (utf16 '' kitten '')
              (sample_state [entryOf ''cat.jpg'' ''cat'', entryOf ''dog.jpg'' ''dog'',
                             entryOf ''bird.jpg'' ''bird'']))
     = [entryOf ''cat.jpg'' '' kitten '', entryOf ''dog.jpg'' ''dog'', entryOf ''bird.jpg'' ''bird'']
   \<and> removeFile 3 (sample_state [entryOf ''cat.jpg'' ''cat'', entryOf ''dog.jpg'' ''dog'',
                                 entryOf ''bird.jpg'' ''bird''])
     = sample_state [entryOf ''cat.jpg'' ''cat'', entryOf ''dog.jpg'' ''dog'',
                     entryOf ''bird.jpg'' ''bird'']"
proof -
  let ?s = "sample_state [entryOf ''cat.jpg'' ''cat'', entryOf ''dog.jpg'' ''dog'',
                          entryOf ''bird.jpg'' ''bird'']"
  have v: "(0::int) \<le> 0 \<and> 0 < int (length (files ?s))"
    by (simp add: sample_state_def)
  have w: "\<not> ((0::int) \<le> 3 \<and> 3 < int (length (files ?s)))"
    by (simp add: sample_state_def)
  have a: "files (removeFile 0 ?s) = take (nat 0) (files ?s) @ drop (Suc (nat 0)) (files ?s)"
    using v removeFile_handleClassNameChange_total [of 0 ?s "utf16 '' kitten ''"] by blast
  have b: "files (handleClassNameChange 0 (utf16 '' kitten '') ?s)
             = (files ?s)[nat 0 := (files ?s ! nat 0)\<lparr>className := utf16 '' kitten ''\<rparr>]"
    using v removeFile_handleClassNameChange_total [of 0 ?s "utf16 '' kitten ''"] by blast
  have c: "removeFile 3 ?s = ?s"
    using w removeFile_handleClassNameChange_total [of 3 ?s "utf16 '' kitten ''"] by blast
  show ?thesis
    unfolding a b c by (simp add: sample_state_def entryOf_def)
qed

subsection \<open>Dropping an entry on itself\<close>

text \<open>
  C7. The claim: a drop with \<open>sourceIndex = targetIndex\<close> leaves the collection
  unchanged and clears the active index, as the moving branch does. The handler returns
  before \<^verbatim>\<open>setActiveDragIndex(null)\<close> when the indices are equal: after a drag
  started at index 1 and dropped on index 1 the collection is unchanged, and the active
  index is still 1. The same drag dropped on index 0 clears it.
\<close>

theorem handleDrop_same_index_returns_early:
  "handleDrop index index s = Inr s
   \<and> activeDragIndex (handleDragStart 1 (sample_state [entryOf ''cat.jpg'' ''cat'',
                                                       entryOf ''dog.jpg'' ''dog'']))
     = Some 1
   \<and> handleDrop 1 1 (handleDragStart 1 (sample_state [entryOf ''cat.jpg'' ''cat'',
                                                      entryOf ''dog.jpg'' ''dog'']))
     = Inr (handleDragStart 1 (sample_state [entryOf ''cat.jpg'' ''cat'',
                                             entryOf ''dog.jpg'' ''dog'']))
   \<and> map_sum id activeDragIndex
       (handleDrop 1 0 (handleDragStart 1 (sample_state [entryOf ''cat.jpg'' ''cat'',
                                                         entryOf ''dog.jpg'' ''dog''])))
     = Inr None"
  by (simp add: handleDrop_def handleDragStart_def moveEntry_def actualStart_def sample_state_def)

subsection \<open>The request state under edits of the collection\<close>

text \<open>
  C10. \<open>removeFile\<close>, \<open>handleClassNameChange\<close> and \<open>handleDrop\<close> leave
  \<open>isLoading\<close>, the error and the download URL as they were; so a download URL
  present after a successful submission stays present when the collection is edited or
  reordered, unlike after \<open>onDrop\<close>, which sets it to null.
\<close>

theorem edits_keep_request_state:
  "isLoading (removeFile index s) = isLoading s
   \<and> error (removeFile index s) = error s
   \<and> downloadUrl (removeFile index s) = downloadUrl s
   \<and> isLoading (handleClassNameChange index v s) = isLoading s
   \<and> error (handleClassNameChange index v s) = error s
   \<and> downloadUrl (handleClassNameChange index v s) = downloadUrl s
   \<and> (\<forall>s'. handleDrop sourceIndex targetIndex s = Inr s' \<longrightarrow>
         isLoading s' = isLoading s \<and> error s' = error s \<and> downloadUrl s' = downloadUrl s)"
  by (auto simp: removeFile_def handleClassNameChange_def handleDrop_def
      split: if_splits sum.splits)

text \<open>
  After a success the download URL survives a removal, and the error survives a new
  label; a reordering keeps the URL, where \<open>onDrop\<close> clears it.
\<close>

theorem edits_keep_request_state_witness:
  "downloadUrl (removeFile 0 (app relabelled_config)) = Some 0
   \<and> error (handleClassNameChange 0 (utf16 ''cat'') (app relabelled_config))
       = Some ''Please provide a class name for each image''
   \<and> handleDrop 1 0 ((app resubmitted_config)
                        \<lparr>files := [entryOf ''cat.jpg'' ''cat'', entryOf ''dog.jpg'' ''dog'']\<rparr>)
       = Inr ((app resubmitted_config)
                \<lparr>files := [entryOf ''dog.jpg'' ''dog'', entryOf ''cat.jpg'' ''cat'']\<rparr>)
   \<and> downloadUrl ((app resubmitted_config)
                     \<lparr>files := [entryOf ''dog.jpg'' ''dog'', entryOf ''cat.jpg'' ''cat'']\<rparr>)
       = Some 1
   \<and> downloadUrl (onDrop [''dog.jpg''] (app resubmitted_config)) = None"
proof -
  let ?s = "(app resubmitted_config)\<lparr>files := [entryOf ''cat.jpg'' ''cat'', entryOf ''dog.jpg'' ''dog'']\<rparr>"
  let ?s' = "(app resubmitted_config)\<lparr>files := [entryOf ''dog.jpg'' ''dog'', entryOf ''cat.jpg'' ''cat'']\<rparr>"
  have d: "handleDrop 1 0 ?s = Inr ?s'"
    by (simp add: handleDrop_def moveEntry_def actualStart_def resubmitted_config_def)
  have a: "downloadUrl (removeFile 0 (app relabelled_config)) = Some 0"
    using edits_keep_request_state [of 0 "app relabelled_config"]
    by (simp add: relabelled_config_def)
  have b: "error (handleClassNameChange 0 (utf16 ''cat'') (app relabelled_config))
       = Some ''Please provide a class name for each image''"
    using edits_keep_request_state [of 0 "app relabelled_config" "utf16 ''cat''"]
    by (simp add: relabelled_config_def)
  have c: "downloadUrl ?s' = Some 1"
    using d edits_keep_request_state [of 0 ?s "[]" 1 0]
    by (simp add: resubmitted_config_def)
  have e: "downloadUrl (onDrop [''dog.jpg''] (app resubmitted_config)) = None"
    by (simp add: onDrop_def)
  from a b c d e show ?thesis by blast
qed

subsection \<open>One request at a time\<close>

text \<open>
  C1. In every reachable configuration at most one request is pending, and
  \<open>isLoading\<close> is true exactly while one is. While it is true a submit gesture is a
  no-op: the state is unchanged and no second request is issued. The guard is the submit
  button's \<^verbatim>\<open>disabled\<close> attribute, through which the form dispatches the handler.
\<close>

theorem submit_while_loading_is_noop:
  assumes "reachable c"
  shows "length (pending c) \<le> 1
         \<and> (isLoading (app c) \<longleftrightarrow> pending c \<noteq> [])
         \<and> (isLoading (app c) \<longrightarrow>
              submitForm (app c) = (app c, []) \<and> step Submit c = Some c)"
proof -
  from assms have "session_inv c" by (rule reachable_session_inv)
  then have "length (pending c) \<le> 1" and "isLoading (app c) \<longleftrightarrow> pending c \<noteq> []"
    by (simp_all add: session_inv_def)
  moreover have "isLoading (app c) \<longrightarrow> submitForm (app c) = (app c, []) \<and> step Submit c = Some c"
    by (simp add: submitForm_def)
  ultimately show ?thesis by blast
qed

text \<open>
  After a file is dropped, labelled and submitted the request is pending; a further
  submit gesture leaves that configuration as it is.
\<close>

theorem submit_while_loading_is_noop_witness:
  "reachable in_flight_config
   \<and> isLoading (app in_flight_config)
   \<and> length (pending in_flight_config) = 1
   \<and> submitForm (app in_flight_config) = (app in_flight_config, [])
   \<and> run (submitted_session @ [Submit]) init_config = Some in_flight_config"
proof -
  have r: "reachable in_flight_config"
    using reachable_init run_submitted_session by (rule run_reachable)
  have l: "isLoading (app in_flight_config)"
    by (simp add: in_flight_config_def)
  have n: "length (pending in_flight_config) = 1"
    by (simp add: in_flight_config_def)
  from submit_while_loading_is_noop [OF r] l
  have s: "submitForm (app in_flight_config) = (app in_flight_config, [])"
    and t: "step Submit in_flight_config = Some in_flight_config"
    by blast+
  have "run (submitted_session @ [Submit]) init_config = Some in_flight_config"
    using t by (simp add: run_append run_submitted_session)
  with r l n s show ?thesis by blast
qed

text \<open>
  The guard is not in the handler: \<open>handleSubmit\<close> does not read \<open>isLoading\<close>, and
  called on the loading state of that configuration it would issue a request.
\<close>

lemma handleSubmit_reads_no_isLoading:
  "isLoading (app in_flight_config)
   \<and> snd (handleSubmit (app in_flight_config)) = pending in_flight_config"
  by (simp add: in_flight_config_def handleSubmit_def entryOf_def utf16_def trim_def
      isWhiteSpace_def)

subsection \<open>Error and download URL\<close>

text \<open>
  C5, as the claim states it, fails: the error and the download URL are separate state
  variables, and the validation returns of \<open>handleSubmit\<close> set the error without
  touching the download URL. After a successful submission, replacing the label by a
  space and submitting again ends with the class-name message and the download URL of
  the earlier success both present.
\<close>

theorem error_beside_download_counterexample:
  "run relabelled_session init_config = Some relabelled_config
   \<and> reachable relabelled_config
   \<and> error (app relabelled_config) = Some ''Please provide a class name for each image''
   \<and> downloadUrl (app relabelled_config) = Some 0"
proof -
  have "reachable relabelled_config"
    using reachable_init run_relabelled_session by (rule run_reachable)
  then show ?thesis
    using run_relabelled_session by (simp add: relabelled_config_def)
qed

text \<open>
  C5, amended. In every reachable configuration: while a request is in flight neither
  an error nor a download URL is present; the message of a failed request is never
  present beside a download URL; and when an error and a download URL are both present,
  no request is in flight and the error is the message of the class-name validation,
  which was raised after the success that made the URL.
\<close>

theorem request_state_fields:
  assumes "reachable c"
  shows "(isLoading (app c) \<longrightarrow> error (app c) = None \<and> downloadUrl (app c) = None)
         \<and> (error (app c) = Some ''Error processing images. Please try again.'' \<longrightarrow>
              downloadUrl (app c) = None)
         \<and> (error (app c) \<noteq> None \<and> downloadUrl (app c) \<noteq> None \<longrightarrow>
              \<not> isLoading (app c)
              \<and> error (app c) = Some ''Please provide a class name for each image'')"
proof -
  from assms have "session_inv c" by (rule reachable_session_inv)
  then show ?thesis
    by (auto simp: session_inv_def)
qed

text \<open>The pending configuration and the relabelled one satisfy the two hypotheses.\<close>

theorem request_state_fields_witness:
  "reachable in_flight_config \<and> isLoading (app in_flight_config)
   \<and> error (app in_flight_config) = None \<and> downloadUrl (app in_flight_config) = None
   \<and> reachable relabelled_config \<and> \<not> isLoading (app relabelled_config)
   \<and> error (app relabelled_config) \<noteq> None \<and> downloadUrl (app relabelled_config) \<noteq> None"
proof -
  have r: "reachable in_flight_config"
    using reachable_init run_submitted_session by (rule run_reachable)
  have l: "isLoading (app in_flight_config)"
    by (simp add: in_flight_config_def)
  have r': "reachable relabelled_config"
    using reachable_init run_relabelled_session by (rule run_reachable)
  have b: "error (app relabelled_config) \<noteq> None \<and> downloadUrl (app relabelled_config) \<noteq> None"
    by (simp add: relabelled_config_def)
  from request_state_fields [OF r] request_state_fields [OF r'] r r' l b
  show ?thesis by blast
qed

subsection \<open>Object URLs\<close>

text \<open>
  C9, as the claim states it, fails: the source creates an object URL for every
  successful response and never revokes one. After two successful submissions the store
  holds both blobs; the state refers to the second.
\<close>

theorem two_live_handles_counterexample:
  "run resubmitted_session init_config = Some resubmitted_config
   \<and> reachable resubmitted_config
   \<and> objectUrls resubmitted_config = [''zip 1'', ''zip 2'']
   \<and> length (objectUrls resubmitted_config) = 2
   \<and> downloadUrl (app resubmitted_config) = Some 1"
proof -
  have "reachable resubmitted_config"
    using reachable_init run_resubmitted_session by (rule run_reachable)
  then show ?thesis
    using run_resubmitted_session by (simp add: resubmitted_config_def)
qed

text \<open>
  C9, amended. The state refers to at most one object URL at a time, and that is the
  newest of the store. No object URL is ever released: along every run from a reachable
  configuration the entries of the store stay, and each successful response adds one,
  so the store holds as many live handles as there were successful responses.
\<close>

theorem object_urls_never_released:
  assumes "reachable c" and "run evs c = Some c'"
  shows "take (length (objectUrls c)) (objectUrls c') = objectUrls c
         \<and> length (objectUrls c') = length (objectUrls c) + length (filter isSuccess evs)
         \<and> (\<forall>u. downloadUrl (app c') = Some u \<longrightarrow> Suc u = length (objectUrls c'))"
proof -
  from assms have "reachable c'" by (rule run_reachable)
  then have "session_inv c'" by (rule reachable_session_inv)
  then have "\<forall>u. downloadUrl (app c') = Some u \<longrightarrow> Suc u = length (objectUrls c')"
    by (simp add: session_inv_def)
  with run_objectUrls [OF assms(2)] show ?thesis by blast
qed

text \<open>The session with two successful responses, from the initial configuration.\<close>

theorem object_urls_never_released_witness:
  "reachable (init_config :: (string, string) config)
   \<and> run resubmitted_session init_config = Some resubmitted_config
   \<and> length (objectUrls resubmitted_config) = length (filter isSuccess resubmitted_session)
   \<and> length (filter isSuccess resubmitted_session) = 2
   \<and> Suc 1 = length (objectUrls resubmitted_config)"
proof -
  have r: "reachable (init_config :: (string, string) config)"
    by (rule reachable_init)
  have d: "downloadUrl (app resubmitted_config) = Some 1"
    by (simp add: resubmitted_config_def)
  have i: "objectUrls (init_config :: (string, string) config) = []"
    by (simp add: init_config_def)
  have f: "length (filter isSuccess resubmitted_session) = 2"
    by (simp add: resubmitted_session_def submitted_session_def)
  note t = object_urls_never_released [OF r run_resubmitted_session]
  from t have a: "length (objectUrls resubmitted_config)
                    = length (objectUrls (init_config :: (string, string) config))
                      + length (filter isSuccess resubmitted_session)"
    by blast
  from t d have b: "Suc 1 = length (objectUrls resubmitted_config)"
    by blast
  from a i have c: "length (objectUrls resubmitted_config) = length (filter isSuccess resubmitted_session)"
    by simp
  from r run_resubmitted_session c f b show ?thesis by blast
qed

end
